theory Spec2Isabelle
  imports Main
begin

section \<open>Data model (server.py, dfs.py, client.py)\<close>

text \<open>The enum \<^verbatim>\<open>DataCenter\<close> of server.py.\<close>

datatype DataCenter = NEW_YORK | TORONTO | LONDON

text \<open>
  \<^verbatim>\<open>class FileVersion\<close>: name, content and a Python (unbounded) integer version.
\<close>

record FileVersion =
  name :: string
  content :: string
  version :: int

text \<open>
  A cache listener is the bound method \<^verbatim>\<open>client.invalidate_cache_entry\<close>; Python
  compares two bound methods of this kind equal exactly when they belong to the same
  client object, so a listener is represented by the identity of its client.
\<close>

type_synonym callback = nat

text \<open>
  \<^verbatim>\<open>class Server\<close>: \<^verbatim>\<open>files\<close> and \<^verbatim>\<open>_cache_listeners\<close> are dicts; the listener
  lists keep their order and (possible) duplicates.
\<close>

record Server =
  dc :: DataCenter
  files :: "string \<rightharpoonup> FileVersion"
  alive :: bool
  cache_listeners :: "string \<rightharpoonup> callback list"

text \<open>
  \<^verbatim>\<open>class DistributedFileSystem\<close>: \<^verbatim>\<open>servers_by_dc\<close> is a Python dict, kept here as
  an association list in insertion order (the order in which \<^verbatim>\<open>values()\<close> enumerates).
\<close>

record DistributedFileSystem =
  servers_by_dc :: "(DataCenter \<times> Server) list"
  primary_table :: "string \<rightharpoonup> DataCenter"

text \<open>\<^verbatim>\<open>class CacheEntry\<close> and \<^verbatim>\<open>class Client\<close> of client.py.\<close>

record CacheEntry =
  ce_content :: string
  ce_version :: int
  valid :: bool

record Client =
  client_name :: string
  preferred_dc :: DataCenter
  cache :: "string \<rightharpoonup> CacheEntry"

text \<open>
  The whole system: the coordinator with its servers, and the store of client objects
  indexed by client identity (the target of the listeners).
\<close>

record System =
  dfs :: DistributedFileSystem
  clients :: "nat \<Rightarrow> Client"

text \<open>The exceptions the code raises, as values.\<close>

datatype error =
  KeyError_file string
  | KeyError_site DataCenter
  | RuntimeError_no_replica
  | RuntimeError_cannot_read

section \<open>Server (server.py)\<close>

definition Server_init :: "DataCenter \<Rightarrow> Server" where
  "Server_init d = \<lparr>dc = d, files = Map.empty, alive = True, cache_listeners = Map.empty\<rparr>"

definition is_available :: "Server \<Rightarrow> bool" where
  "is_available s = alive s"

definition bring_down :: "Server \<Rightarrow> Server" where
  "bring_down s = s\<lparr>alive := False\<rparr>"

definition bring_up :: "Server \<Rightarrow> Server" where
  "bring_up s = s\<lparr>alive := True\<rparr>"

definition store_initial_file :: "Server \<Rightarrow> string \<Rightarrow> string \<Rightarrow> int \<Rightarrow> Server" where
  "store_initial_file s n c v =
     s\<lparr>files := (files s)(n \<mapsto> \<lparr>name = n, content = c, version = v\<rparr>)\<rparr>"

definition Server_read_file :: "Server \<Rightarrow> string \<Rightarrow> FileVersion option" where
  "Server_read_file s n = (if \<not> is_available s then None else files s n)"

definition apply_update :: "Server \<Rightarrow> string \<Rightarrow> string \<Rightarrow> int \<Rightarrow> Server" where
  "apply_update s n new_content new_version =
     (if \<not> is_available s then s
      else (case files s n of
              Some fv \<Rightarrow>
                s\<lparr>files := (files s)(n \<mapsto> fv\<lparr>content := new_content, version := new_version\<rparr>)\<rparr>
            | None \<Rightarrow>
                s\<lparr>files := (files s)(n \<mapsto>
                     \<lparr>name = n, content = new_content, version = new_version\<rparr>)\<rparr>))"

text \<open>
  \<^verbatim>\<open>register_cache_listener\<close>: \<^verbatim>\<open>setdefault\<close> creates the empty list for a new file
  name, then the callback is appended unless it is already in the list.
\<close>

definition register_cache_listener :: "Server \<Rightarrow> string \<Rightarrow> callback \<Rightarrow> Server" where
  "register_cache_listener s file_name cb =
     (let listeners = (case cache_listeners s file_name of None \<Rightarrow> [] | Some l \<Rightarrow> l)
      in if cb \<notin> set listeners
         then s\<lparr>cache_listeners := (cache_listeners s)(file_name \<mapsto> listeners @ [cb])\<rparr>
         else s\<lparr>cache_listeners := (cache_listeners s)(file_name \<mapsto> listeners)\<rparr>)"

text \<open>
  \<^verbatim>\<open>invalidate_caches\<close> calls \<^verbatim>\<open>cb(file_name)\<close> for every listener in list order and
  leaves the server as it is: the model returns the callbacks invoked, in order.
\<close>

definition invalidate_caches :: "Server \<Rightarrow> string \<Rightarrow> callback list" where
  "invalidate_caches s file_name =
     (case cache_listeners s file_name of None \<Rightarrow> [] | Some l \<Rightarrow> l)"

section \<open>Coordinator (dfs.py)\<close>

text \<open>Python's \<^verbatim>\<open>d[k] = v\<close> on an insertion-ordered dict.\<close>

fun dict_set :: "('k \<times> 'v) list \<Rightarrow> 'k \<Rightarrow> 'v \<Rightarrow> ('k \<times> 'v) list" where
  "dict_set [] k v = [(k, v)]"
| "dict_set ((k', v') # d) k v = (if k' = k then (k, v) # d else (k', v') # dict_set d k v)"

definition DistributedFileSystem_init ::
  "Server list \<Rightarrow> (string \<rightharpoonup> DataCenter) \<Rightarrow> DistributedFileSystem" where
  "DistributedFileSystem_init servers table =
     \<lparr>servers_by_dc = foldl (\<lambda>d s. dict_set d (dc s) s) [] servers, primary_table = table\<rparr>"

text \<open>
  \<^verbatim>\<open>get_primary_server\<close>: both dict subscripts raise \<^verbatim>\<open>KeyError\<close>. The returned
  server object is given as its key together with its current value.
\<close>

definition get_primary_server ::
  "DistributedFileSystem \<Rightarrow> string \<Rightarrow> error + (DataCenter \<times> Server)" where
  "get_primary_server d file_name =
     (case primary_table d file_name of
        None \<Rightarrow> Inl (KeyError_file file_name)
      | Some primary_dc \<Rightarrow>
          (case map_of (servers_by_dc d) primary_dc of
             None \<Rightarrow> Inl (KeyError_site primary_dc)
           | Some s \<Rightarrow> Inr (primary_dc, s)))"

definition get_all_servers :: "DistributedFileSystem \<Rightarrow> Server list" where
  "get_all_servers d = map snd (servers_by_dc d)"

definition get_best_server_for_read :: "DistributedFileSystem \<Rightarrow> DataCenter \<Rightarrow> Server option" where
  "get_best_server_for_read d pref =
     (case map_of (servers_by_dc d) pref of
        Some preferred \<Rightarrow>
          if is_available preferred then Some preferred
          else find is_available (get_all_servers d)
      | None \<Rightarrow> find is_available (get_all_servers d))"


text \<open>
  A method call on the server object stored under key \<open>k\<close> of \<^verbatim>\<open>servers_by_dc\<close>
  (the keys of a dict are unique, so this is one object).
\<close>

definition update_server ::
  "DataCenter \<Rightarrow> (Server \<Rightarrow> Server) \<Rightarrow> (DataCenter \<times> Server) list \<Rightarrow> (DataCenter \<times> Server) list" where
  "update_server k f svs = map (\<lambda>(k', s). if k' = k then (k', f s) else (k', s)) svs"

section \<open>Client (client.py)\<close>

definition invalidate_cache_entry :: "Client \<Rightarrow> string \<Rightarrow> Client" where
  "invalidate_cache_entry cl file_name =
     (case cache cl file_name of
        Some entry \<Rightarrow> cl\<lparr>cache := (cache cl)(file_name \<mapsto> entry\<lparr>valid := False\<rparr>)\<rparr>
      | None \<Rightarrow> cl)"

text \<open>The loop \<^verbatim>\<open>for cb in listeners: cb(file_name)\<close> acting on the client objects.\<close>

definition run_callbacks :: "callback list \<Rightarrow> string \<Rightarrow> (nat \<Rightarrow> Client) \<Rightarrow> (nat \<Rightarrow> Client)" where
  "run_callbacks cbs file_name cls =
     fold (\<lambda>cb c. c(cb := invalidate_cache_entry (c cb) file_name)) cbs cls"

text \<open>
  \<^verbatim>\<open>DistributedFileSystem.write_file_with_quorum\<close>. The primary is updated first,
  then every other available replica (\<^verbatim>\<open>replica is not primary\<close> is a comparison of
  the dict slots), then the primary's listeners are called.
\<close>

definition write_file_with_quorum :: "System \<Rightarrow> string \<Rightarrow> string \<Rightarrow> error + (bool \<times> System)" where
  "write_file_with_quorum w file_name new_content =
     (case get_primary_server (dfs w) file_name of
        Inl e \<Rightarrow> Inl e
      | Inr (primary_dc, primary) \<Rightarrow>
          (let available_servers = filter is_available (get_all_servers (dfs w));
               quorum_size = length available_servers
           in if quorum_size < 2 then Inr (False, w)
              else
                (let current = Server_read_file primary file_name;
                     current_version = (case current of Some fv \<Rightarrow> version fv | None \<Rightarrow> 0);
                     new_version = current_version + 1;
                     svs1 = update_server primary_dc
                              (\<lambda>s. apply_update s file_name new_content new_version)
                              (servers_by_dc (dfs w));
                     svs2 = map (\<lambda>(k, s).
                                   if k \<noteq> primary_dc \<and> is_available s
                                   then (k, apply_update s file_name new_content new_version)
                                   else (k, s)) svs1;
                     called = invalidate_caches
                                (apply_update primary file_name new_content new_version) file_name
                 in Inr (True,
                         w\<lparr>dfs := (dfs w)\<lparr>servers_by_dc := svs2\<rparr>,
                           clients := run_callbacks called file_name (clients w)\<rparr>))))"



section \<open>The system of main.py\<close>

text \<open>
  \<^verbatim>\<open>build_system\<close>: three servers, each holding the three files at version 1, and the
  primary table of the assignment.
\<close>

definition initial_server :: "DataCenter \<Rightarrow> Server" where
  "initial_server d =
     store_initial_file
       (store_initial_file
          (store_initial_file (Server_init d) ''file1.txt'' ''Initial content of file1'' 1)
          ''file2.txt'' ''Initial content of file2'' 1)
       ''file3.txt'' ''Initial content of file3'' 1"

definition build_system :: DistributedFileSystem where
  "build_system =
     DistributedFileSystem_init
       [initial_server NEW_YORK, initial_server TORONTO, initial_server LONDON]
       [''file1.txt'' \<mapsto> NEW_YORK, ''file2.txt'' \<mapsto> TORONTO, ''file3.txt'' \<mapsto> LONDON]"

text \<open>
  The clients of \<^verbatim>\<open>main\<close>: Alice (identity 0, preferring New York) and Bob (every
  other identity, preferring London), with empty caches.
\<close>

definition main_system :: System where
  "main_system =
     \<lparr>dfs = build_system,
      clients = (\<lambda>i. if i = 0
                      then \<lparr>client_name = ''Alice'', preferred_dc = NEW_YORK, cache = Map.empty\<rparr>
                      else \<lparr>client_name = ''Bob'', preferred_dc = LONDON, cache = Map.empty\<rparr>)\<rparr>"

text \<open>The administrative toggles \<^verbatim>\<open>bring_down\<close> and \<^verbatim>\<open>bring_up\<close> on the server of a site.\<close>

definition site_down :: "DataCenter \<Rightarrow> System \<Rightarrow> System" where
  "site_down k w = w\<lparr>dfs := (dfs w)\<lparr>servers_by_dc := update_server k bring_down (servers_by_dc (dfs w))\<rparr>\<rparr>"

definition site_up :: "DataCenter \<Rightarrow> System \<Rightarrow> System" where
  "site_up k w = w\<lparr>dfs := (dfs w)\<lparr>servers_by_dc := update_server k bring_up (servers_by_dc (dfs w))\<rparr>\<rparr>"

section \<open>Observations used in the statements\<close>

text \<open>
  The version a replica stores for a file, 0 when it has none (the convention of
  \<^verbatim>\<open>current.version if current else 0\<close>), the stored (content, version) pair, and the
  number the coordinator computes as \<^verbatim>\<open>quorum_size\<close>. The \<open>after_\<close> functions give the
  state after a call; a call that raises leaves the state as it was.
\<close>

definition stored_version :: "Server \<Rightarrow> string \<Rightarrow> int" where
  "stored_version s f = (case files s f of Some fv \<Rightarrow> version fv | None \<Rightarrow> 0)"

definition stored :: "Server \<Rightarrow> string \<Rightarrow> (string \<times> int) option" where
  "stored s f = (case files s f of Some fv \<Rightarrow> Some (content fv, version fv) | None \<Rightarrow> None)"

definition quorum_size :: "System \<Rightarrow> nat" where
  "quorum_size w = length (filter is_available (get_all_servers (dfs w)))"

definition write_result :: "System \<Rightarrow> string \<Rightarrow> string \<Rightarrow> error + bool" where
  "write_result w f c = (case write_file_with_quorum w f c of Inl e \<Rightarrow> Inl e | Inr (b, w') \<Rightarrow> Inr b)"

definition after_write :: "System \<Rightarrow> string \<Rightarrow> string \<Rightarrow> System" where
  "after_write w f c = (case write_file_with_quorum w f c of Inl e \<Rightarrow> w | Inr (b, w') \<Rightarrow> w')"

definition primary_stored_version :: "System \<Rightarrow> string \<Rightarrow> int option" where
  "primary_stored_version w f =
     (case get_primary_server (dfs w) f of Inl e \<Rightarrow> None | Inr (k, p) \<Rightarrow> Some (stored_version p f))"




section \<open>Sequences of operations\<close>










section \<open>The read-after-write scenario\<close>

text \<open>
  A list of availability settings applied in order (\<^verbatim>\<open>bring_up\<close> for \<open>True\<close>,
  \<^verbatim>\<open>bring_down\<close> for \<open>False\<close>); the listeners registered for a file at the file's
  primary; the relation between a later and an earlier state in which every replica
  available in the later state was available in the earlier one; and the content a
  client read returns.
\<close>

definition set_availability :: "(DataCenter \<times> bool) list \<Rightarrow> System \<Rightarrow> System" where
  "set_availability ts w = fold (\<lambda>(k, b) w'. if b then site_up k w' else site_down k w') ts w"




section \<open>Reachable server states\<close>

text \<open>
  The states a \<^verbatim>\<open>Server\<close> object can be in: created by the constructor and changed
  only by its own methods.
\<close>

inductive Server_reachable :: "Server \<Rightarrow> bool" where
  reach_init: "Server_reachable (Server_init d)"
| reach_down: "Server_reachable s \<Longrightarrow> Server_reachable (bring_down s)"
| reach_up: "Server_reachable s \<Longrightarrow> Server_reachable (bring_up s)"
| reach_store: "Server_reachable s \<Longrightarrow> Server_reachable (store_initial_file s n c v)"
| reach_update: "Server_reachable s \<Longrightarrow> Server_reachable (apply_update s n c v)"
| reach_register: "Server_reachable s \<Longrightarrow> Server_reachable (register_cache_listener s n cb)"

section \<open>Facts about the server and the callbacks\<close>

lemma cache_listeners_apply_update [simp]:
  "cache_listeners (apply_update s n c v) = cache_listeners s"
  by (simp add: apply_update_def split: option.splits)

lemma alive_apply_update [simp]: "alive (apply_update s n c v) = alive s"
  by (simp add: apply_update_def split: option.splits)

lemma invalidate_caches_register:
  "invalidate_caches (register_cache_listener s f cb) g =
     (if g = f then (if cb \<in> set (invalidate_caches s f) then invalidate_caches s f
                     else invalidate_caches s f @ [cb])
      else invalidate_caches s g)"
  by (auto simp: invalidate_caches_def register_cache_listener_def Let_def split: option.splits)

lemma Server_reachable_distinct:
  "Server_reachable s \<Longrightarrow> distinct (invalidate_caches s f)"
proof (induction arbitrary: f rule: Server_reachable.induct)
  case (reach_init d)
  show ?case by (simp add: invalidate_caches_def Server_init_def)
next
  case (reach_register s n cb)
  then show ?case by (simp add: invalidate_caches_register)
qed (simp_all add: invalidate_caches_def bring_down_def bring_up_def store_initial_file_def)

lemma distinct_count_list_1: "distinct xs \<Longrightarrow> x \<in> set xs \<Longrightarrow> count_list xs x = 1"
  by (induction xs) auto

lemma register_twice:
  "register_cache_listener (register_cache_listener s f h) f h = register_cache_listener s f h"
  by (simp add: register_cache_listener_def Let_def split: option.splits)

lemma cache_invalidate_cache_entry:
  "cache (invalidate_cache_entry cl f) g =
     (if g = f then map_option (\<lambda>e. e\<lparr>valid := False\<rparr>) (cache cl f) else cache cl g)"
  by (simp add: invalidate_cache_entry_def split: option.splits)

lemma run_callbacks_cache:
  "cache (run_callbacks cbs f cls h) g =
     (if g = f \<and> h \<in> set cbs then map_option (\<lambda>e. e\<lparr>valid := False\<rparr>) (cache (cls h) f)
      else cache (cls h) g)"
  unfolding run_callbacks_def
proof (induction cbs arbitrary: cls)
  case Nil
  show ?case by simp
next
  case (Cons cb cbs)
  let ?F = "\<lambda>cb c. c(cb := invalidate_cache_entry (c cb) f)"
  let ?cls = "cls(cb := invalidate_cache_entry (cls cb) f)"
  have "cache (fold ?F (cb # cbs) cls h) g = cache (fold ?F cbs ?cls h) g"
    by simp
  also have "\<dots> = (if g = f \<and> h \<in> set cbs
                   then map_option (\<lambda>e. e\<lparr>valid := False\<rparr>) (cache (?cls h) f)
                   else cache (?cls h) g)"
    by (rule Cons.IH)
  also have "\<dots> = (if g = f \<and> h \<in> set (cb # cbs)
                   then map_option (\<lambda>e. e\<lparr>valid := False\<rparr>) (cache (cls h) f)
                   else cache (cls h) g)"
    by (cases "cache (cls h) f") (auto simp: cache_invalidate_cache_entry)
  finally show ?case .
qed

lemma run_callbacks_invalidates:
  "h \<in> set cbs \<Longrightarrow> cache (cls h) f = Some e \<Longrightarrow>
     cache (run_callbacks cbs f cls h) f = Some (e\<lparr>valid := False\<rparr>)"
  by (simp add: run_callbacks_cache)

lemma dc_initial_server [simp]: "dc (initial_server d) = d"
  by (simp add: initial_server_def store_initial_file_def Server_init_def)

lemma alive_initial_server [simp]: "alive (initial_server d)"
  by (simp add: initial_server_def store_initial_file_def Server_init_def)

lemma servers_by_dc_build_system:
  "servers_by_dc build_system =
     [(NEW_YORK, initial_server NEW_YORK), (TORONTO, initial_server TORONTO),
      (LONDON, initial_server LONDON)]"
  by (simp add: build_system_def DistributedFileSystem_init_def)

lemma invalidate_cache_entry_twice:
  "invalidate_cache_entry (invalidate_cache_entry cl f) f = invalidate_cache_entry cl f"
  by (cases "cache cl f") (simp_all add: invalidate_cache_entry_def)

lemma run_callbacks_client:
  "run_callbacks cbs f cls h =
     (if h \<in> set cbs then invalidate_cache_entry (cls h) f else cls h)"
  unfolding run_callbacks_def
proof (induction cbs arbitrary: cls)
  case Nil
  show ?case by simp
next
  case (Cons cb cbs)
  let ?F = "\<lambda>cb c. c(cb := invalidate_cache_entry (c cb) f)"
  let ?cls = "cls(cb := invalidate_cache_entry (cls cb) f)"
  have "fold ?F (cb # cbs) cls h = fold ?F cbs ?cls h"
    by simp
  also have "\<dots> = (if h \<in> set cbs then invalidate_cache_entry (?cls h) f else ?cls h)"
    by (rule Cons.IH)
  also have "\<dots> = (if h \<in> set (cb # cbs) then invalidate_cache_entry (cls h) f else cls h)"
    by (simp add: invalidate_cache_entry_twice)
  finally show ?case .
qed

lemma primary_table_build_system:
  "primary_table build_system =
     [''file1.txt'' \<mapsto> NEW_YORK, ''file2.txt'' \<mapsto> TORONTO, ''file3.txt'' \<mapsto> LONDON]"
  by (simp add: build_system_def DistributedFileSystem_init_def)

lemma build_system_all_sites: "\<exists>s. map_of (servers_by_dc build_system) k = Some s"
  by (cases k) (simp_all add: servers_by_dc_build_system)

section \<open>Facts about the quorum write\<close>

lemma apply_update_down: "\<not> is_available s \<Longrightarrow> apply_update s f c v = s"
  by (simp add: apply_update_def)

lemma is_available_apply_update [simp]: "is_available (apply_update s f c v) = is_available s"
  by (simp add: is_available_def)

lemma stored_apply_update:
  "stored (apply_update s f c v) g =
     (if is_available s \<and> g = f then Some (c, v) else stored s g)"
  by (simp add: stored_def apply_update_def split: option.splits)

lemma stored_version_apply_update:
  "stored_version (apply_update s f c v) g =
     (if is_available s \<and> g = f then v else stored_version s g)"
  by (simp add: stored_version_def apply_update_def split: option.splits)

lemma write_servers_map:
  "map (\<lambda>(k', s). if k' \<noteq> k \<and> is_available s then (k', apply_update s f c v) else (k', s))
       (update_server k (\<lambda>s. apply_update s f c v) svs)
   = map (\<lambda>(k', s). (k', apply_update s f c v)) svs"
  by (induction svs) (auto simp: update_server_def apply_update_down)

lemma write_commit:
  assumes "get_primary_server (dfs w) f = Inr (k, p)" and "2 \<le> quorum_size w"
  shows "write_file_with_quorum w f c =
           Inr (True,
                w\<lparr>dfs := (dfs w)\<lparr>servers_by_dc :=
                       map (\<lambda>(k', s). (k', apply_update s f c
                              ((case Server_read_file p f of Some fv \<Rightarrow> version fv | None \<Rightarrow> 0) + 1)))
                           (servers_by_dc (dfs w))\<rparr>,
                  clients := run_callbacks (invalidate_caches p f) f (clients w)\<rparr>)"
  using assms
  by (simp add: write_file_with_quorum_def quorum_size_def Let_def write_servers_map
        invalidate_caches_def)

lemma write_abort:
  assumes "get_primary_server (dfs w) f = Inr (k, p)" and "quorum_size w < 2"
  shows "write_file_with_quorum w f c = Inr (False, w)"
  using assms by (simp add: write_file_with_quorum_def quorum_size_def Let_def)

lemma write_raise:
  assumes "get_primary_server (dfs w) f = Inl e"
  shows "write_file_with_quorum w f c = Inl e"
  using assms by (simp add: write_file_with_quorum_def)

lemma write_true_quorum:
  assumes "write_file_with_quorum w f c = Inr (True, w')"
    and "get_primary_server (dfs w) f = Inr (k, p)"
  shows "2 \<le> quorum_size w"
proof (rule ccontr)
  assume "\<not> 2 \<le> quorum_size w"
  then have "quorum_size w < 2" by simp
  with assms(2) have "write_file_with_quorum w f c = Inr (False, w)"
    by (rule write_abort)
  with assms(1) show False by simp
qed

lemma map_of_map_snd:
  "map_of (map (\<lambda>(k, s). (k, g s)) svs) k = map_option g (map_of svs k)"
  by (induction svs) auto

lemma get_primary_server_map:
  "get_primary_server (d\<lparr>servers_by_dc := map (\<lambda>(k, s). (k, g s)) (servers_by_dc d)\<rparr>) f =
     (case get_primary_server d f of Inl e \<Rightarrow> Inl e | Inr (k, p) \<Rightarrow> Inr (k, g p))"
  by (simp add: get_primary_server_def map_of_map_snd split: option.splits)

lemma primary_main_system:
  "get_primary_server (dfs main_system) ''file1.txt'' = Inr (NEW_YORK, initial_server NEW_YORK)"
  by (simp add: main_system_def get_primary_server_def primary_table_build_system
        servers_by_dc_build_system)

lemma quorum_main_system: "quorum_size main_system = 3"
  by (simp add: quorum_size_def main_system_def get_all_servers_def servers_by_dc_build_system
        is_available_def)


section \<open>Facts about runs\<close>

lemma stored_version_bring [simp]:
  "stored_version (bring_down s) f = stored_version s f"
  "stored_version (bring_up s) f = stored_version s f"
  by (simp_all add: stored_version_def bring_down_def bring_up_def)

















section \<open>Facts about client reads and writes\<close>






lemma clients_site [simp]:
  "clients (site_up k w) = clients w" "clients (site_down k w) = clients w"
  by (simp_all add: site_up_def site_down_def)

lemma clients_set_availability [simp]: "clients (set_availability ts w) = clients w"
  unfolding set_availability_def
  by (induction ts arbitrary: w) (auto split: prod.splits)












section \<open>The claims\<close>

text \<open>
  C5. Subscribing the same callback \<open>h\<close> twice for a file leaves the server exactly as
  subscribing it once does; the list of callbacks that one \<^verbatim>\<open>invalidate_caches\<close> push
  then goes through contains \<open>h\<close> exactly once, and running that push leaves the client
  of \<open>h\<close> as one call of its \<^verbatim>\<open>invalidate_cache_entry\<close> does. This holds in every
  state a server can reach through its own methods.
\<close>

theorem subscribe_idempotent:
  assumes "Server_reachable s"
  shows "register_cache_listener (register_cache_listener s f h) f h = register_cache_listener s f h
       \<and> count_list (invalidate_caches (register_cache_listener (register_cache_listener s f h) f h) f) h = 1
       \<and> run_callbacks
            (invalidate_caches (register_cache_listener (register_cache_listener s f h) f h) f) f cls h
          = invalidate_cache_entry (cls h) f"
proof -
  have d: "distinct (invalidate_caches (register_cache_listener s f h) f)"
    using assms by (intro Server_reachable_distinct reach_register)
  have m: "h \<in> set (invalidate_caches (register_cache_listener s f h) f)"
    by (simp add: invalidate_caches_register)
  from d m have "count_list (invalidate_caches (register_cache_listener s f h) f) h = 1"
    by (rule distinct_count_list_1)
  with m show ?thesis by (simp add: register_twice run_callbacks_client)
qed

theorem subscribe_idempotent_witness:
  "Server_reachable (Server_init LONDON)
   \<and> count_list (invalidate_caches (register_cache_listener
        (register_cache_listener (Server_init LONDON) ''f'' 7) ''f'' 7) ''f'') 7 = 1
   \<and> cache (run_callbacks
        (invalidate_caches (register_cache_listener
           (register_cache_listener (Server_init LONDON) ''f'' 7) ''f'' 7) ''f'') ''f''
        (\<lambda>i. \<lparr>client_name = ''Bob'', preferred_dc = LONDON,
              cache = [''f'' \<mapsto> \<lparr>ce_content = ''x'', ce_version = 1, valid = True\<rparr>]\<rparr>) 7) ''f''
     = Some \<lparr>ce_content = ''x'', ce_version = 1, valid = False\<rparr>"
proof -
  let ?cls = "\<lambda>i::nat. \<lparr>client_name = ''Bob'', preferred_dc = LONDON,
              cache = [''f'' \<mapsto> \<lparr>ce_content = ''x'', ce_version = 1, valid = True\<rparr>]\<rparr>"
  have e: "cache (invalidate_cache_entry (?cls 7) ''f'') ''f''
             = Some \<lparr>ce_content = ''x'', ce_version = 1, valid = False\<rparr>"
    by (simp add: invalidate_cache_entry_def)
  note th = subscribe_idempotent [OF reach_init, of LONDON "''f''" 7 ?cls]
  from th have c: "count_list (invalidate_caches (register_cache_listener
        (register_cache_listener (Server_init LONDON) ''f'' 7) ''f'' 7) ''f'') 7 = 1"
    by blast
  from th have r: "run_callbacks
        (invalidate_caches (register_cache_listener
           (register_cache_listener (Server_init LONDON) ''f'' 7) ''f'' 7) ''f'') ''f'' ?cls 7
      = invalidate_cache_entry (?cls 7) ''f''"
    by blast
  show ?thesis
    using reach_init [of LONDON] c e by (simp only: r)
qed

text \<open>
  C6. \<^verbatim>\<open>get_best_server_for_read\<close> returns the replica of the preferred site when
  there is one and it is available; otherwise its result is the first available replica
  in the enumeration order of all servers; and it returns nothing exactly when no replica
  is available.
\<close>

theorem get_best_server_for_read_spec:
  "(\<forall>p. map_of (servers_by_dc d) pref = Some p \<and> is_available p \<longrightarrow>
        get_best_server_for_read d pref = Some p)
   \<and> ((\<forall>p. map_of (servers_by_dc d) pref = Some p \<longrightarrow> \<not> is_available p) \<longrightarrow>
        (\<forall>s. get_best_server_for_read d pref = Some s \<longleftrightarrow>
           (\<exists>i < length (get_all_servers d). get_all_servers d ! i = s \<and> is_available s
              \<and> (\<forall>j < i. \<not> is_available (get_all_servers d ! j)))))
   \<and> (get_best_server_for_read d pref = None \<longleftrightarrow>
        (\<forall>s \<in> set (get_all_servers d). \<not> is_available s))"
proof (intro conjI allI impI)
  fix p assume "map_of (servers_by_dc d) pref = Some p \<and> is_available p"
  then show "get_best_server_for_read d pref = Some p"
    by (simp add: get_best_server_for_read_def)
next
  fix s assume "\<forall>p. map_of (servers_by_dc d) pref = Some p \<longrightarrow> \<not> is_available p"
  then have "get_best_server_for_read d pref = find is_available (get_all_servers d)"
    by (simp add: get_best_server_for_read_def split: option.splits)
  then show "get_best_server_for_read d pref = Some s \<longleftrightarrow>
           (\<exists>i < length (get_all_servers d). get_all_servers d ! i = s \<and> is_available s
              \<and> (\<forall>j < i. \<not> is_available (get_all_servers d ! j)))"
    by (auto simp: find_Some_iff)
next
  show "get_best_server_for_read d pref = None \<longleftrightarrow>
        (\<forall>s \<in> set (get_all_servers d). \<not> is_available s)"
  proof (cases "map_of (servers_by_dc d) pref")
    case None
    then show ?thesis by (auto simp: get_best_server_for_read_def find_None_iff)
  next
    case (Some p)
    then have "p \<in> set (get_all_servers d)"
      by (auto simp: get_all_servers_def dest: map_of_SomeD intro: image_eqI [where x = "(pref, p)"])
    with Some show ?thesis
      by (auto simp: get_best_server_for_read_def find_None_iff)
  qed
qed

theorem get_best_server_for_read_spec_witness:
  "map_of (servers_by_dc build_system) TORONTO = Some (initial_server TORONTO)
   \<and> is_available (initial_server TORONTO)
   \<and> get_best_server_for_read build_system TORONTO = Some (initial_server TORONTO)
   \<and> get_best_server_for_read build_system TORONTO \<noteq> None
   \<and> (\<exists>s \<in> set (get_all_servers build_system). is_available s)"
proof -
  have h: "map_of (servers_by_dc build_system) TORONTO = Some (initial_server TORONTO)
           \<and> is_available (initial_server TORONTO)"
    by (simp add: servers_by_dc_build_system is_available_def)
  from get_best_server_for_read_spec [of build_system TORONTO] h show ?thesis
    by (metis option.distinct(1))
qed

text \<open>
  C8. In a system where every site named in the primary table has its server (one
  replica for each site, as the coordinator is built), \<^verbatim>\<open>get_primary_server\<close> fails
  exactly when the file has no entry in the primary table, the failure being the
  \<^verbatim>\<open>KeyError\<close> of the table lookup for that file name, and otherwise it returns the
  server stored for the site assigned to the file.
\<close>

theorem get_primary_server_cases:
  assumes "\<forall>g k. primary_table d g = Some k \<longrightarrow> (\<exists>s. map_of (servers_by_dc d) k = Some s)"
  shows "(get_primary_server d f = Inl (KeyError_file f) \<longleftrightarrow> primary_table d f = None)
       \<and> ((\<exists>e. get_primary_server d f = Inl e) \<longleftrightarrow> primary_table d f = None)
       \<and> (\<forall>k. primary_table d f = Some k \<longrightarrow>
             (\<exists>s. map_of (servers_by_dc d) k = Some s \<and> get_primary_server d f = Inr (k, s)))"
proof (cases "primary_table d f")
  case None
  then show ?thesis by (simp add: get_primary_server_def)
next
  case (Some k)
  with assms obtain s where "map_of (servers_by_dc d) k = Some s" by blast
  with Some show ?thesis by (simp add: get_primary_server_def)
qed

theorem get_primary_server_cases_witness:
  "(\<forall>k. \<exists>s. map_of (servers_by_dc build_system) k = Some s)
   \<and> primary_table build_system ''file9.txt'' = None
   \<and> get_primary_server build_system ''file9.txt'' = Inl (KeyError_file ''file9.txt'')
   \<and> primary_table build_system ''file2.txt'' = Some TORONTO
   \<and> get_primary_server build_system ''file2.txt'' = Inr (TORONTO, initial_server TORONTO)"
proof -
  have h: "\<forall>g k. primary_table build_system g = Some k \<longrightarrow>
             (\<exists>s. map_of (servers_by_dc build_system) k = Some s)"
    by (simp add: build_system_all_sites)
  have n: "primary_table build_system ''file9.txt'' = None"
    by (simp add: primary_table_build_system)
  have t: "primary_table build_system ''file2.txt'' = Some TORONTO"
    by (simp add: primary_table_build_system)
  have m: "map_of (servers_by_dc build_system) TORONTO = Some (initial_server TORONTO)"
    by (simp add: servers_by_dc_build_system)
  from get_primary_server_cases [OF h, of "''file9.txt''"]
       get_primary_server_cases [OF h, of "''file2.txt''"] n t m build_system_all_sites
  show ?thesis by auto
qed

text \<open>
  C10. Subscription and invalidation do not look at the availability flag: on a server
  that is down, \<^verbatim>\<open>register_cache_listener\<close> still records the callback,
  \<^verbatim>\<open>invalidate_caches\<close> still calls every listener of the file (each called client
  marks its entry invalid), while \<^verbatim>\<open>read_file\<close> returns nothing and \<^verbatim>\<open>apply_update\<close>
  changes nothing.
\<close>

theorem listeners_ignore_availability:
  assumes "\<not> is_available s"
  shows "cb \<in> set (invalidate_caches (register_cache_listener s f cb) f)
       \<and> (\<forall>l. cache_listeners s f = Some l \<longrightarrow> invalidate_caches s f = l)
       \<and> (\<forall>h \<in> set (invalidate_caches s f). \<forall>e. cache (cls h) f = Some e \<longrightarrow>
            cache (run_callbacks (invalidate_caches s f) f cls h) f = Some (e\<lparr>valid := False\<rparr>))
       \<and> Server_read_file s f = None
       \<and> apply_update s f c v = s"
proof (intro conjI)
  show "cb \<in> set (invalidate_caches (register_cache_listener s f cb) f)"
    by (simp add: invalidate_caches_register)
  show "\<forall>l. cache_listeners s f = Some l \<longrightarrow> invalidate_caches s f = l"
    by (simp add: invalidate_caches_def)
  show "\<forall>h \<in> set (invalidate_caches s f). \<forall>e. cache (cls h) f = Some e \<longrightarrow>
            cache (run_callbacks (invalidate_caches s f) f cls h) f = Some (e\<lparr>valid := False\<rparr>)"
    by (simp add: run_callbacks_invalidates)
  show "Server_read_file s f = None"
    using assms by (simp add: Server_read_file_def)
  show "apply_update s f c v = s"
    using assms by (simp add: apply_update_def)
qed

theorem listeners_ignore_availability_witness:
  "\<not> is_available (bring_down (register_cache_listener (Server_init LONDON) ''f'' 3))
   \<and> 5 \<in> set (invalidate_caches (register_cache_listener
               (bring_down (register_cache_listener (Server_init LONDON) ''f'' 3)) ''f'' 5) ''f'')
   \<and> 3 \<in> set (invalidate_caches
               (bring_down (register_cache_listener (Server_init LONDON) ''f'' 3)) ''f'')
   \<and> cache (run_callbacks
        (invalidate_caches (bring_down (register_cache_listener (Server_init LONDON) ''f'' 3)) ''f'')
        ''f''
        (\<lambda>i. \<lparr>client_name = ''Bob'', preferred_dc = LONDON,
              cache = [''f'' \<mapsto> \<lparr>ce_content = ''x'', ce_version = 1, valid = True\<rparr>]\<rparr>) 3) ''f''
       = Some \<lparr>ce_content = ''x'', ce_version = 1, valid = False\<rparr>
   \<and> Server_read_file (bring_down (register_cache_listener (Server_init LONDON) ''f'' 3)) ''f''
       = None"
proof -
  let ?s = "bring_down (register_cache_listener (Server_init LONDON) ''f'' 3)"
  let ?cls = "\<lambda>i::nat. \<lparr>client_name = ''Bob'', preferred_dc = LONDON,
              cache = [''f'' \<mapsto> \<lparr>ce_content = ''x'', ce_version = 1, valid = True\<rparr>]\<rparr>"
  have down: "\<not> is_available ?s"
    by (simp add: is_available_def bring_down_def)
  have mem: "3 \<in> set (invalidate_caches ?s ''f'')"
    by (simp add: invalidate_caches_def bring_down_def register_cache_listener_def Server_init_def)
  have ent: "cache (?cls 3) ''f'' = Some \<lparr>ce_content = ''x'', ce_version = 1, valid = True\<rparr>"
    by simp
  from listeners_ignore_availability [OF down, of 5 "''f''" ?cls] down mem ent
  show ?thesis by auto
qed

text \<open>
  C1 (as amended). If \<^verbatim>\<open>write_file_with_quorum\<close> returns success and the primary replica
  of the file is available during the write, then afterwards the primary stores the new
  content at its previous version plus 1, and every replica that was available during the
  write stores the same (content, version) pair as the primary.
\<close>

theorem quorum_write_commits:
  assumes wr: "write_file_with_quorum w f c = Inr (True, w')"
    and pr: "get_primary_server (dfs w) f = Inr (k, p)"
    and up: "is_available p"
  shows "\<exists>p'. get_primary_server (dfs w') f = Inr (k, p')
           \<and> stored_version p' f = stored_version p f + 1
           \<and> stored p' f = Some (c, stored_version p f + 1)
           \<and> length (servers_by_dc (dfs w')) = length (servers_by_dc (dfs w))
           \<and> (\<forall>i < length (servers_by_dc (dfs w)).
                 is_available (snd (servers_by_dc (dfs w) ! i)) \<longrightarrow>
                 stored (snd (servers_by_dc (dfs w') ! i)) f = stored p' f)"
proof -
  let ?v = "(case Server_read_file p f of Some fv \<Rightarrow> version fv | None \<Rightarrow> 0) + 1"
  have q: "2 \<le> quorum_size w"
    using wr pr by (rule write_true_quorum)
  have v: "?v = stored_version p f + 1"
    using up by (simp add: Server_read_file_def stored_version_def)
  from write_commit [OF pr q, of c] wr
  have svs: "servers_by_dc (dfs w') =
               map (\<lambda>(k', s). (k', apply_update s f c ?v)) (servers_by_dc (dfs w))"
    and tab: "primary_table (dfs w') = primary_table (dfs w)"
    by auto
  have "dfs w' = (dfs w)\<lparr>servers_by_dc := map (\<lambda>(k', s). (k', apply_update s f c ?v)) (servers_by_dc (dfs w))\<rparr>"
    using write_commit [OF pr q, of c] wr by auto
  then have p': "get_primary_server (dfs w') f = Inr (k, apply_update p f c ?v)"
    using pr by (simp add: get_primary_server_map)
  have nth: "\<forall>i < length (servers_by_dc (dfs w)).
                 is_available (snd (servers_by_dc (dfs w) ! i)) \<longrightarrow>
                 stored (snd (servers_by_dc (dfs w') ! i)) f = Some (c, ?v)"
    by (auto simp: svs stored_apply_update split: prod.splits)
  show ?thesis
    using p' up nth v by (auto simp: stored_apply_update stored_version_apply_update svs)
qed


theorem quorum_write_commits_witness:
  "\<exists>w'. write_file_with_quorum main_system ''file1.txt'' ''new'' = Inr (True, w')
      \<and> get_primary_server (dfs main_system) ''file1.txt'' = Inr (NEW_YORK, initial_server NEW_YORK)
      \<and> is_available (initial_server NEW_YORK)
      \<and> is_available (snd (servers_by_dc (dfs main_system) ! 2))
      \<and> (\<exists>p'. get_primary_server (dfs w') ''file1.txt'' = Inr (NEW_YORK, p')
           \<and> stored_version p' ''file1.txt'' = stored_version (initial_server NEW_YORK) ''file1.txt'' + 1
           \<and> stored p' ''file1.txt'' = Some (''new'', 2)
           \<and> stored (snd (servers_by_dc (dfs w') ! 2)) ''file1.txt'' = Some (''new'', 2))"
proof -
  have up: "is_available (initial_server NEW_YORK)"
    by (simp add: is_available_def)
  have v: "stored_version (initial_server NEW_YORK) ''file1.txt'' = 1"
    by (simp add: stored_version_def initial_server_def store_initial_file_def)
  have len: "2 < length (servers_by_dc (dfs main_system))"
    by (simp add: main_system_def servers_by_dc_build_system)
  have up2: "is_available (snd (servers_by_dc (dfs main_system) ! 2))"
    by (simp add: main_system_def servers_by_dc_build_system is_available_def)
  obtain w' where wr: "write_file_with_quorum main_system ''file1.txt'' ''new'' = Inr (True, w')"
    using write_commit [OF primary_main_system, of "''new''"] quorum_main_system by simp
  from quorum_write_commits [OF wr primary_main_system up]
  obtain p' where "get_primary_server (dfs w') ''file1.txt'' = Inr (NEW_YORK, p')"
    and "stored_version p' ''file1.txt'' = stored_version (initial_server NEW_YORK) ''file1.txt'' + 1"
    and "stored p' ''file1.txt'' = Some (''new'', stored_version (initial_server NEW_YORK) ''file1.txt'' + 1)"
    and "\<forall>i < length (servers_by_dc (dfs main_system)).
           is_available (snd (servers_by_dc (dfs main_system) ! i)) \<longrightarrow>
           stored (snd (servers_by_dc (dfs w') ! i)) ''file1.txt'' = stored p' ''file1.txt''"
    by blast
  with len up2 v wr primary_main_system up show ?thesis
    by auto
qed

text \<open>
  C1, the claim as written, fails: with the primary of \<^verbatim>\<open>file1.txt\<close> (New York) down
  and the two other replicas up, the write returns success and the primary still stores
  version 1.
\<close>

theorem quorum_write_commits_counterexample:
  "write_result (site_down NEW_YORK main_system) ''file1.txt'' ''new'' = Inr True
   \<and> primary_stored_version (site_down NEW_YORK main_system) ''file1.txt'' = Some 1
   \<and> primary_stored_version
        (after_write (site_down NEW_YORK main_system) ''file1.txt'' ''new'') ''file1.txt'' = Some 1"
  by code_simp

text \<open>
  C2 (as amended). When fewer than 2 replicas are available: for a file whose primary
  server is found, \<^verbatim>\<open>write_file_with_quorum\<close> returns \<^verbatim>\<open>False\<close> and the whole state
  (every replica's files and listeners, every client cache) is unchanged; for a file
  whose primary lookup fails, the call raises that error instead of returning.
\<close>

theorem quorum_not_met:
  assumes "quorum_size w < 2"
  shows "(\<forall>k p. get_primary_server (dfs w) f = Inr (k, p) \<longrightarrow>
            write_file_with_quorum w f c = Inr (False, w))
       \<and> (\<forall>e. get_primary_server (dfs w) f = Inl e \<longrightarrow> write_file_with_quorum w f c = Inl e)"
  using assms by (simp add: write_abort write_raise)

theorem quorum_not_met_witness:
  "quorum_size (site_down TORONTO (site_down LONDON main_system)) < 2
   \<and> (\<exists>k p. get_primary_server (dfs (site_down TORONTO (site_down LONDON main_system))) ''file1.txt''
              = Inr (k, p))
   \<and> write_file_with_quorum (site_down TORONTO (site_down LONDON main_system)) ''file1.txt'' ''new''
       = Inr (False, site_down TORONTO (site_down LONDON main_system))"
proof -
  let ?w = "site_down TORONTO (site_down LONDON main_system)"
  have q: "quorum_size ?w < 2"
    by code_simp
  have "\<exists>k p. get_primary_server (dfs ?w) ''file1.txt'' = Inr (k, p)"
    by (simp add: get_primary_server_def site_down_def update_server_def main_system_def
          servers_by_dc_build_system primary_table_build_system)
  then obtain k p where pr: "get_primary_server (dfs ?w) ''file1.txt'' = Inr (k, p)"
    by blast
  from quorum_not_met [OF q, of "''file1.txt''" "''new''"] q pr show ?thesis
    by blast
qed

text \<open>
  C2, the claim as written, fails: with two of the three replicas down, a write to a file
  that has no entry in the primary table raises the \<^verbatim>\<open>KeyError\<close> of
  \<^verbatim>\<open>get_primary_server\<close>, which is called before the quorum test.
\<close>

theorem quorum_not_met_counterexample:
  "quorum_size (site_down TORONTO (site_down LONDON main_system)) < 2
   \<and> write_result (site_down TORONTO (site_down LONDON main_system)) ''file9.txt'' ''new''
       = Inl (KeyError_file ''file9.txt'')"
  by code_simp





text \<open>
  C9. In every state where the primary of the file is unavailable and at least two
  replicas are available, \<^verbatim>\<open>write_file_with_quorum\<close> returns success, computes the new
  version 1 whatever the replicas store, leaves the primary as it is, gives (content, 1)
  to every available replica and leaves the unavailable ones unchanged.
\<close>

theorem write_without_primary:
  assumes pr: "get_primary_server (dfs w) f = Inr (k, p)"
    and down: "\<not> is_available p"
    and q: "2 \<le> quorum_size w"
  shows "\<exists>w'. write_file_with_quorum w f c = Inr (True, w')
           \<and> get_primary_server (dfs w') f = Inr (k, p)
           \<and> length (servers_by_dc (dfs w')) = length (servers_by_dc (dfs w))
           \<and> (\<forall>i < length (servers_by_dc (dfs w)).
                 fst (servers_by_dc (dfs w') ! i) = fst (servers_by_dc (dfs w) ! i)
                 \<and> (is_available (snd (servers_by_dc (dfs w) ! i)) \<longrightarrow>
                      stored (snd (servers_by_dc (dfs w') ! i)) f = Some (c, 1))
                 \<and> (\<not> is_available (snd (servers_by_dc (dfs w) ! i)) \<longrightarrow>
                      snd (servers_by_dc (dfs w') ! i) = snd (servers_by_dc (dfs w) ! i)))"
proof -
  let ?svs = "map (\<lambda>(k', s). (k', apply_update s f c 1)) (servers_by_dc (dfs w))"
  let ?w' = "w\<lparr>dfs := (dfs w)\<lparr>servers_by_dc := ?svs\<rparr>,
               clients := run_callbacks (invalidate_caches p f) f (clients w)\<rparr>"
  have v: "(case Server_read_file p f of Some fv \<Rightarrow> version fv | None \<Rightarrow> 0) + 1 = 1"
    using down by (simp add: Server_read_file_def)
  have wr: "write_file_with_quorum w f c = Inr (True, ?w')"
    using write_commit [OF pr q, of c] by (simp only: v)
  have p': "get_primary_server (dfs ?w') f = Inr (k, p)"
    using pr down by (simp add: get_primary_server_map apply_update_down)
  have nth: "\<forall>i < length (servers_by_dc (dfs w)).
                 fst (?svs ! i) = fst (servers_by_dc (dfs w) ! i)
                 \<and> (is_available (snd (servers_by_dc (dfs w) ! i)) \<longrightarrow>
                      stored (snd (?svs ! i)) f = Some (c, 1))
                 \<and> (\<not> is_available (snd (servers_by_dc (dfs w) ! i)) \<longrightarrow>
                      snd (?svs ! i) = snd (servers_by_dc (dfs w) ! i))"
    by (auto simp: stored_apply_update apply_update_down split: prod.splits)
  show ?thesis
    using wr p' nth by (intro exI [of _ ?w']) simp
qed


theorem write_without_primary_witness:
  "primary_stored_version (site_down NEW_YORK (after_write main_system ''file1.txt'' ''a'')) ''file1.txt''
     = Some 2
   \<and> 2 \<le> quorum_size (site_down NEW_YORK (after_write main_system ''file1.txt'' ''a''))
   \<and> (\<exists>k p w'.
         get_primary_server (dfs (site_down NEW_YORK (after_write main_system ''file1.txt'' ''a'')))
             ''file1.txt'' = Inr (k, p)
         \<and> \<not> is_available p
         \<and> write_file_with_quorum (site_down NEW_YORK (after_write main_system ''file1.txt'' ''a''))
             ''file1.txt'' ''b'' = Inr (True, w')
         \<and> get_primary_server (dfs w') ''file1.txt'' = Inr (k, p)
         \<and> stored (snd (servers_by_dc (dfs w') ! 1)) ''file1.txt'' = Some (''b'', 1))"
proof -
  let ?w = "site_down NEW_YORK (after_write main_system ''file1.txt'' ''a'')"
  have v: "primary_stored_version ?w ''file1.txt'' = Some 2"
    by code_simp
  have q: "2 \<le> quorum_size ?w"
    by code_simp
  have "case get_primary_server (dfs ?w) ''file1.txt'' of
          Inl e \<Rightarrow> False | Inr (k, p) \<Rightarrow> \<not> is_available p"
    by code_simp
  then obtain k p where pr: "get_primary_server (dfs ?w) ''file1.txt'' = Inr (k, p)"
    and down: "\<not> is_available p"
    by (auto split: sum.splits)
  have len: "1 < length (servers_by_dc (dfs ?w))"
    by code_simp
  have up: "is_available (snd (servers_by_dc (dfs ?w) ! 1))"
    by code_simp
  from write_without_primary [OF pr down q, of "''b''"] len up
  obtain w' where "write_file_with_quorum ?w ''file1.txt'' ''b'' = Inr (True, w')"
    and "get_primary_server (dfs w') ''file1.txt'' = Inr (k, p)"
    and "stored (snd (servers_by_dc (dfs w') ! 1)) ''file1.txt'' = Some (''b'', 1)"
    by blast
  with v q pr down show ?thesis by blast
qed









end
